theory Spec2Isabelle
  imports Main "HOL-Library.Word"
begin

section \<open>Values, buffers and dialects\<close>

text \<open>
  Go's \<open>interface{}\<close> values that travel through the builders are opaque to them but
  for \<open>fmt.Sprint\<close>: an integer, a string, or any other value, kept by what
  \<open>fmt.Sprint\<close> prints for it. Interface values with methods (runner, event receiver,
  dialect, cache) are taken to be non-nil. A Go \<open>int\<close> that is only stored and
  compared (\<open>RunLen\<close>, a count) is an \<open>int\<close> here.
\<close>

datatype iface = IInt int | IString string | IOther string

text \<open>\<open>fmt.Sprint\<close>: a string prints as itself, an integer in decimal.\<close>

function string_of_nat :: "nat \<Rightarrow> string" where
  "string_of_nat n =
     (if n < 10 then [''0123456789'' ! n]
      else string_of_nat (n div 10) @ [''0123456789'' ! (n mod 10)])"
  by pat_completeness auto
termination
  by (relation "measure id") auto

declare string_of_nat.simps [simp del]

definition Sprint :: "iface \<Rightarrow> string" where
  "Sprint v =
     (case v of
        IString s \<Rightarrow> s
      | IOther s \<Rightarrow> s
      | IInt i \<Rightarrow> (if i < 0 then ''-'' @ string_of_nat (nat (- i)) else string_of_nat (nat i)))"

text \<open>
  Modelled from the spec: the \<open>Buffer\<close> that \<open>Build\<close> writes to is not among the
  sources; it accumulates the SQL text and, in order, the bound values
  ("renders itself plus bound values into parameterized SQL").
\<close>

record buffer =
  str :: string
  val :: "iface list"

definition NewBuffer :: buffer where
  "NewBuffer = \<lparr>str = [], val = []\<rparr>"

definition WriteString :: "buffer \<Rightarrow> string \<Rightarrow> buffer" where
  "WriteString buf s = \<lparr>str = str buf @ s, val = val buf\<rparr>"

definition WriteValue :: "buffer \<Rightarrow> iface \<Rightarrow> buffer" where
  "WriteValue buf v = \<lparr>str = str buf, val = val buf @ [v]\<rparr>"

text \<open>The dialect's identifier quoting is a parameter of every builder.\<close>

record Dialect =
  QuoteIdent :: "string \<Rightarrow> string"

section \<open>Errors and panics\<close>

text \<open>
  The package's sentinel errors, \<open>errors.New\<close> with its message, and the errors that
  the driver, the cache, \<open>gob\<close> and the interpolator hand back.
\<close>

datatype error =
    ErrTableNotSpecified
  | ErrColumnNotSpecified
  | ErrInvalidPointer
  | ErrorsNew string
  | External string

datatype panic = IndexOutOfRange | SliceBoundsOutOfRange

text \<open>A Go call either returns or panics; a panic unwinds through every caller here.\<close>

datatype 'a res = Returns 'a | Panics panic

section \<open>The case-update statement\<close>

record CaseUpdateValue =
  Key :: string
  Val :: "iface list"

text \<open>
  The embedded \<open>runner\<close>, \<open>EventReceiver\<close> and \<open>Dialect\<close> of the struct are passed to
  the functions that use them.
\<close>

record CaseUpdateStmt =
  Table :: string
  PKey :: string
  RunLen :: int
  Column :: "string list"
  Value :: "CaseUpdateValue list"
  ReturnColumn :: "string list"

definition CaseUpdate :: "string \<Rightarrow> CaseUpdateStmt" where
  "CaseUpdate table =
     \<lparr>Table = table, PKey = [], RunLen = 0, Column = [], Value = [], ReturnColumn = []\<rparr>"

definition Columns :: "CaseUpdateStmt \<Rightarrow> string \<Rightarrow> string list \<Rightarrow> CaseUpdateStmt" where
  "Columns b pkey column = b\<lparr>PKey := pkey, Column := column\<rparr>"

text \<open>
  \<open>Values\<close>: the loop overwrites \<open>Val\<close> of every accumulated row whose key is the
  printed primary key, and the \<open>append\<close> after the loop runs in every case.
\<close>

definition Values :: "CaseUpdateStmt \<Rightarrow> iface \<Rightarrow> iface list \<Rightarrow> CaseUpdateStmt" where
  "Values b PKValue value =
     (let pk = Sprint PKValue;
          rows = map (\<lambda>v. if Key v = pk then v\<lparr>Val := value\<rparr> else v) (Value b)
      in b\<lparr>Value := rows @ [\<lparr>Key = Sprint PKValue, Val = value\<rparr>]\<rparr>)"

definition SetRunLen :: "CaseUpdateStmt \<Rightarrow> int \<Rightarrow> CaseUpdateStmt" where
  "SetRunLen b i = b\<lparr>RunLen := i\<rparr>"

subsection \<open>Build\<close>

text \<open>
  The inner loop \<open>for x, v := range b.Value\<close> of one column \<open>i\<close>: it breaks at
  \<open>x >= RunLen && RunLen > 0\<close>, and \<open>v.Val[i]\<close> panics on a row that is too short.
\<close>

fun when_clauses :: "int \<Rightarrow> nat \<Rightarrow> nat \<Rightarrow> CaseUpdateValue list \<Rightarrow> buffer \<Rightarrow> buffer res" where
  "when_clauses rl i x [] buf = Returns buf"
| "when_clauses rl i x (v # vs) buf =
     (if rl \<le> int x \<and> 0 < rl then Returns buf
      else if i < length (Val v) then
        when_clauses rl i (Suc x) vs
          (WriteValue (WriteValue (WriteString buf '' WHEN ? THEN ? '') (IString (Key v)))
             (Val v ! i))
      else Panics IndexOutOfRange)"

text \<open>
  The outer loop \<open>for i, col := range b.Column\<close>. \<open>col[len(col)-1]\<close> panics on the
  empty name.
\<close>

fun set_clauses :: "Dialect \<Rightarrow> CaseUpdateStmt \<Rightarrow> nat \<Rightarrow> string list \<Rightarrow> buffer \<Rightarrow> buffer res" where
  "set_clauses d b i [] buf = Returns buf"
| "set_clauses d b i (col # cols) buf =
     (let buf1 = (if 0 < i then WriteString buf '', '' else buf) in
      if col = [] then Panics IndexOutOfRange
      else
        let buf2 =
              (if last col = CHR ''+'' \<or> last col = CHR ''-'' then
                 WriteString
                   (WriteString
                      (WriteString (WriteString buf1 (QuoteIdent d (butlast col))) '' = '')
                      (QuoteIdent d (butlast col)))
                   ('' '' @ [last col] @ '' '')
               else WriteString (WriteString buf1 (QuoteIdent d col)) '' = '');
            buf3 = WriteString (WriteString buf2 '' CASE '') (QuoteIdent d (PKey b))
        in (case when_clauses (RunLen b) i 0 (Value b) buf3 of
              Panics p \<Rightarrow> Panics p
            | Returns buf4 \<Rightarrow> set_clauses d b (Suc i) cols (WriteString buf4 '' END '')))"

text \<open>The second loop over \<open>b.Value\<close>, collecting \<open>WhereKey\<close>.\<close>

fun where_keys :: "int \<Rightarrow> nat \<Rightarrow> CaseUpdateValue list \<Rightarrow> string list \<Rightarrow> string list" where
  "where_keys rl x [] acc = acc"
| "where_keys rl x (v # vs) acc =
     (if rl \<le> int x \<and> 0 < rl then acc else where_keys rl (Suc x) vs (acc @ [Key v]))"

text \<open>The loop that writes the \<open>IN\<close> list.\<close>

fun in_list :: "nat \<Rightarrow> string list \<Rightarrow> buffer \<Rightarrow> buffer" where
  "in_list i [] buf = buf"
| "in_list i (key # keys) buf =
     in_list (Suc i) keys
       (WriteValue (WriteString (if 0 < i then WriteString buf '', '' else buf) '' ? '')
          (IString key))"

text \<open>
  The consumed window: \<open>b.Value[b.RunLen:]\<close> panics when \<open>RunLen\<close> is negative.
\<close>

definition consume :: "CaseUpdateStmt \<Rightarrow> CaseUpdateStmt res" where
  "consume b =
     (if RunLen b < int (length (Value b)) \<and> RunLen b \<noteq> 0 then
        (if RunLen b < 0 then Panics SliceBoundsOutOfRange
         else Returns (b\<lparr>Value := drop (nat (RunLen b)) (Value b)\<rparr>))
      else Returns (b\<lparr>Value := []\<rparr>))"

text \<open>
  \<open>Build\<close> returns the statement as it leaves it (the receiver is a pointer), the
  buffer and the error.
\<close>

definition Build :: "Dialect \<Rightarrow> CaseUpdateStmt \<Rightarrow> buffer \<Rightarrow> (CaseUpdateStmt \<times> buffer \<times> error option) res" where
  "Build d b0 buf0 =
     (let b = (if RunLen b0 = 0 then b0\<lparr>RunLen := 1000\<rparr> else b0) in
      if Table b = [] then Returns (b, buf0, Some ErrTableNotSpecified)
      else if length (Column b) = 0 then Returns (b, buf0, Some ErrColumnNotSpecified)
      else
        let buf1 = WriteString (WriteString (WriteString buf0 ''UPDATE '') (QuoteIdent d (Table b))) '' SET ''
        in (case set_clauses d b 0 (Column b) buf1 of
              Panics p \<Rightarrow> Panics p
            | Returns buf2 \<Rightarrow>
                let WhereKey = where_keys (RunLen b) 0 (Value b) [] in
                (case consume b of
                   Panics p \<Rightarrow> Panics p
                 | Returns b' \<Rightarrow>
                     let buf3 = WriteString (WriteString (WriteString buf2 '' WHERE '') (QuoteIdent d (PKey b))) '' IN ('';
                         buf4 = in_list 0 WhereKey buf3
                     in Returns (b', WriteString buf4 '' )'', None))))"


section \<open>The execution engine\<close>

text \<open>
  The functions below thread the list of events of a call, oldest first: the calls
  to the driver and to the cache, and what the event receiver is told. The driver and
  the cache answer as a function of the calls made before (\<open>calls\<close>); they do not see
  the event receiver. Deadlines and elapsed times are not modelled; of the key/value
  fields of an event only \<open>sql\<close> is kept. The optional tracing receiver only observes.
\<close>

type_synonym bytes = "8 word list"

datatype event =
    DriverExec string "iface list"
  | DriverQuery string "iface list"
  | CacheGetBytes string
  | CacheSet string bytes int
  | CacheDel string
  | EventErr string error string
  | Timing string string

fun is_call :: "event \<Rightarrow> bool" where
  "is_call (EventErr name err sql) = False"
| "is_call (Timing name sql) = False"
| "is_call e = True"

definition calls :: "event list \<Rightarrow> event list" where
  "calls h = filter is_call h"

record sqlResult =
  LastInsertId :: int
  RowsAffected :: int

record 'r runner =
  ExecContext :: "event list \<Rightarrow> string \<Rightarrow> iface list \<Rightarrow> error + sqlResult"
  QueryContext :: "event list \<Rightarrow> string \<Rightarrow> iface list \<Rightarrow> error + 'r"

text \<open>\<open>EventErrKv\<close> hands back the error its caller returns.\<close>

record EventReceiver =
  EventErrKv :: "string \<Rightarrow> error \<Rightarrow> string \<Rightarrow> error"

record customCache =
  Set :: "event list \<Rightarrow> string \<Rightarrow> bytes \<Rightarrow> int \<Rightarrow> error option"
  GetBytes :: "event list \<Rightarrow> string \<Rightarrow> bytes \<times> bool \<times> error option"
  Del :: "event list \<Rightarrow> string \<Rightarrow> error option"

record Custom =
  isCount :: bool
  isCache :: bool
  cache :: customCache
  cacheKey :: string
  cacheExpire :: int

text \<open>
  Modelled from the spec: the interpolator (\<open>encodePlaceholder\<close>, \<open>String\<close>, \<open>Value\<close>) is
  not among the sources. It "renders a Buildable tree into final SQL text + ordered bound
  values" or fails; here it is the parameter \<open>enc\<close>, which also returns the builder as
  the call leaves it. For a case-update statement it runs \<open>Build\<close> on a fresh buffer and
  hands the built text and values to the placeholder pass \<open>interpolate\<close>.
\<close>

type_synonym 'b encoder = "Dialect \<Rightarrow> 'b \<Rightarrow> ('b \<times> string \<times> iface list \<times> error option) res"

type_synonym interpolation = "Dialect \<Rightarrow> string \<Rightarrow> iface list \<Rightarrow> string \<times> iface list \<times> error option"


text \<open>
  \<open>exec\<close> returns a result and an error, of which at most one matters to a caller: they
  are one sum here. First the write invalidation, after a successful driver call.
\<close>

definition exec_cache_del :: "EventReceiver \<Rightarrow> Custom list \<Rightarrow> string \<Rightarrow> event list \<Rightarrow> event list" where
  "exec_cache_del log customs query h =
     (case customs of
        [] \<Rightarrow> h
      | custom # _ \<Rightarrow>
          if isCache custom then
            (if cacheKey custom \<noteq> [] then
               (case Del (cache custom) (calls h) (cacheKey custom) of
                  Some err \<Rightarrow>
                    h @ [CacheDel (cacheKey custom), EventErr ''dbr.exec.cache.del'' err query]
                | None \<Rightarrow> h @ [CacheDel (cacheKey custom)])
             else h)
          else h)"

definition exec :: "'b encoder \<Rightarrow> 'r runner \<Rightarrow> EventReceiver \<Rightarrow> 'b \<Rightarrow> Dialect \<Rightarrow> Custom list \<Rightarrow> event list
    \<Rightarrow> ('b \<times> (error + sqlResult) \<times> event list) res" where
  "exec enc runner log builder d customs h =
     (case enc d builder of
        Panics p \<Rightarrow> Panics p
      | Returns (builder', query, value, Some err) \<Rightarrow>
          Returns (builder', Inl (EventErrKv log ''dbr.exec.interpolate'' err query),
                   h @ [EventErr ''dbr.exec.interpolate'' err query])
      | Returns (builder', query, value, None) \<Rightarrow>
          (case ExecContext runner (calls h) query value of
             Inl err \<Rightarrow>
               Returns (builder', Inl (EventErrKv log ''dbr.exec.exec'' err query),
                        h @ [DriverExec query value, EventErr ''dbr.exec.exec'' err query])
           | Inr result \<Rightarrow>
               Returns (builder', Inr result,
                        exec_cache_del log customs query (h @ [DriverExec query value])
                        @ [Timing ''dbr.exec'' query])))"

subsection \<open>Exec of a case-update statement\<close>





subsection \<open>The read path\<close>

text \<open>
  The destination a caller hands to \<open>query\<close>, as far as \<open>reflect\<close> looks at it: not a
  pointer, a nil pointer, a pointer to a slice, or a pointer to anything else.
\<close>

datatype 'a dest = NonPointer | NilPointer | PtrToSlice "'a list" | PtrToValue 'a

text \<open>
  What \<open>query\<close> calls and the sources do not hold: \<open>encoding/gob\<close> (a decoder may have
  written to the destination before it fails), \<open>rows.Next\<close> with \<open>rows.Scan(&count)\<close>
  (whose error \<open>queryCount\<close> drops), and \<open>Load\<close>.
\<close>

record ('r, 'a) externals =
  DecodeCount :: "bytes \<Rightarrow> error + int"
  DecodeDest :: "bytes \<Rightarrow> 'a dest \<Rightarrow> 'a dest \<times> error option"
  EncodeCount :: "int \<Rightarrow> error + bytes"
  EncodeDest :: "'a dest \<Rightarrow> error + bytes"
  ScanCount :: "'r \<Rightarrow> int"
  Load :: "'r \<Rightarrow> 'a dest \<Rightarrow> int \<times> 'a dest \<times> error option"

definition count_sql :: "string \<Rightarrow> string" where
  "count_sql query = ''SELECT COUNT(*) FROM ('' @ query @ '') AS count''"

definition queryRows :: "'b encoder \<Rightarrow> 'r runner \<Rightarrow> EventReceiver \<Rightarrow> 'b \<Rightarrow> Dialect \<Rightarrow> event list
    \<Rightarrow> ('b \<times> string \<times> (error + 'r) \<times> event list) res" where
  "queryRows enc runner log builder d h =
     (case enc d builder of
        Panics p \<Rightarrow> Panics p
      | Returns (builder', query, value, Some err) \<Rightarrow>
          Returns (builder', query, Inl (EventErrKv log ''dbr.select.interpolate'' err query),
                   h @ [EventErr ''dbr.select.interpolate'' err query])
      | Returns (builder', query, value, None) \<Rightarrow>
          (case QueryContext runner (calls h) query value of
             Inl err \<Rightarrow>
               Returns (builder', query, Inl (EventErrKv log ''dbr.select.load.query'' err query),
                        h @ [DriverQuery query value, EventErr ''dbr.select.load.query'' err query])
           | Inr rows \<Rightarrow> Returns (builder', query, Inr rows, h @ [DriverQuery query value])))"

definition queryCount :: "'b encoder \<Rightarrow> ('r, 'a) externals \<Rightarrow> 'r runner \<Rightarrow> EventReceiver \<Rightarrow> 'b \<Rightarrow> Dialect \<Rightarrow> event list
    \<Rightarrow> ('b \<times> string \<times> (error + int) \<times> event list) res" where
  "queryCount enc ext runner log builder d h =
     (case enc d builder of
        Panics p \<Rightarrow> Panics p
      | Returns (builder', query0, value, err0) \<Rightarrow>
          let query = count_sql query0 in
          (case err0 of
             Some err \<Rightarrow>
               Returns (builder', query, Inl (EventErrKv log ''dbr.select.interpolate'' err query),
                        h @ [EventErr ''dbr.select.interpolate'' err query])
           | None \<Rightarrow>
               (case QueryContext runner (calls h) query value of
                  Inl err \<Rightarrow>
                    Returns (builder', query, Inl (EventErrKv log ''dbr.select.load.query'' err query),
                             h @ [DriverQuery query value, EventErr ''dbr.select.load.query'' err query])
                | Inr rows \<Rightarrow>
                    Returns (builder', query, Inr (ScanCount ext rows), h @ [DriverQuery query value]))))"

definition getSQL :: "'b encoder \<Rightarrow> 'b \<Rightarrow> Dialect \<Rightarrow> ('b \<times> string \<times> error option) res" where
  "getSQL enc builder d =
     (case enc d builder of
        Panics p \<Rightarrow> Panics p
      | Returns (builder', query, value, err) \<Rightarrow> Returns (builder', query, err))"

text \<open>
  The cache read of \<open>query\<close>, from \<open>GetBytes\<close> to the end of the caching block. \<open>Some\<close> is
  what \<open>query\<close> returns at once; \<open>None\<close> is control leaving the block for the database.
\<close>

definition cache_read :: "('r, 'a) externals \<Rightarrow> EventReceiver \<Rightarrow> Custom \<Rightarrow> string \<Rightarrow> 'a dest \<Rightarrow> event list
    \<Rightarrow> (int \<times> error option) option \<times> 'a dest \<times> event list" where
  "cache_read ext log custom query dest h =
     (case GetBytes (cache custom) (calls h) (cacheKey custom) of
        (reply, exist, Some err) \<Rightarrow>
          (None, dest, h @ [CacheGetBytes (cacheKey custom), EventErr ''dbr.select.cache.get'' err query])
      | (reply, exist, None) \<Rightarrow>
          let h1 = h @ [CacheGetBytes (cacheKey custom)] in
          if exist then
            (if isCount custom then
               (case DecodeCount ext reply of
                  Inl err \<Rightarrow> (None, dest, h1 @ [EventErr ''dbr.select.cache.decode'' err query])
                | Inr count \<Rightarrow> (Some (count, None), dest, h1 @ [Timing ''dbr.select.cache'' query]))
             else
               (case DecodeDest ext reply dest of
                  (dest', Some err) \<Rightarrow>
                    (None, dest', h1 @ [EventErr ''dbr.select.cache.decode'' err query])
                | (dest', None) \<Rightarrow>
                    (case dest' of
                       PtrToSlice xs \<Rightarrow>
                         (Some (int (length xs), None), dest', h1 @ [Timing ''dbr.select.cache'' query])
                     | PtrToValue x \<Rightarrow>
                         (Some (1, None), dest', h1 @ [Timing ''dbr.select.cache'' query])
                     | _ \<Rightarrow>
                         (Some (0, Some (EventErrKv log ''dbr.select.cache.decode'' ErrInvalidPointer query)),
                          dest', h1 @ [EventErr ''dbr.select.cache.decode'' ErrInvalidPointer query]))))
          else (None, dest, h1))"

text \<open>
  The encoding of the result and the store under the key, both only with a directive
  whose caching is enabled (\<open>cached\<close>); a failed encoding suppresses the store.
\<close>

definition cache_write :: "Custom option \<Rightarrow> (error + bytes) \<Rightarrow> string \<Rightarrow> event list \<Rightarrow> event list" where
  "cache_write cached encoded query h =
     (case cached of
        None \<Rightarrow> h
      | Some custom \<Rightarrow>
          (case encoded of
             Inl err \<Rightarrow> h @ [EventErr ''dbr.select.cache.encode'' err query]
           | Inr bs \<Rightarrow>
               (case Set (cache custom) (calls h) (cacheKey custom) bs (cacheExpire custom) of
                  Some err \<Rightarrow>
                    h @ [CacheSet (cacheKey custom) bs (cacheExpire custom),
                         EventErr ''dbr.select.cache.set'' err query]
                | None \<Rightarrow> h @ [CacheSet (cacheKey custom) bs (cacheExpire custom)])))"

text \<open>The rest of \<open>query\<close>, from \<open>if custom.isCount\<close> on: the database round trip.\<close>

definition query_database :: "'b encoder \<Rightarrow> ('r, 'a) externals \<Rightarrow> 'r runner \<Rightarrow> EventReceiver \<Rightarrow> 'b \<Rightarrow> Dialect \<Rightarrow> 'a dest
    \<Rightarrow> bool \<Rightarrow> Custom option \<Rightarrow> event list \<Rightarrow> ('b \<times> 'a dest \<times> int \<times> error option \<times> event list) res" where
  "query_database enc ext runner log builder d dest count_wanted cached h =
     (if count_wanted then
        (case queryCount enc ext runner log builder d h of
           Panics p \<Rightarrow> Panics p
         | Returns (builder', query, Inl err, h1) \<Rightarrow>
             Returns (builder', dest, 0, Some (EventErrKv log ''dbr.select.load.scan'' err query),
                      h1 @ [EventErr ''dbr.select.load.scan'' err query])
         | Returns (builder', query, Inr count, h1) \<Rightarrow>
             Returns (builder', dest, count, None,
                      cache_write cached (EncodeCount ext count) query h1 @ [Timing ''dbr.select'' query]))
      else
        (case queryRows enc runner log builder d h of
           Panics p \<Rightarrow> Panics p
         | Returns (builder', query, Inl err, h1) \<Rightarrow>
             Returns (builder', dest, 0, Some (EventErrKv log ''dbr.select.load.scan'' err query),
                      h1 @ [EventErr ''dbr.select.load.scan'' err query])
         | Returns (builder', query, Inr rows, h1) \<Rightarrow>
             (case Load ext rows dest of
                (count, dest', Some err) \<Rightarrow>
                  Returns (builder', dest', 0, Some (EventErrKv log ''dbr.select.load.scan'' err query),
                           h1 @ [EventErr ''dbr.select.load.scan'' err query])
              | (count, dest', None) \<Rightarrow>
                  Returns (builder', dest', count, None,
                           cache_write cached (EncodeDest ext dest') query h1 @ [Timing ''dbr.select'' query]))))"

definition query :: "'b encoder \<Rightarrow> ('r, 'a) externals \<Rightarrow> 'r runner \<Rightarrow> EventReceiver \<Rightarrow> 'b \<Rightarrow> Dialect \<Rightarrow> 'a dest
    \<Rightarrow> Custom list \<Rightarrow> event list \<Rightarrow> ('b \<times> 'a dest \<times> int \<times> error option \<times> event list) res" where
  "query enc ext runner log builder d dest customs h =
     (case customs of
        [] \<Rightarrow> query_database enc ext runner log builder d dest False None h
      | custom # _ \<Rightarrow>
          if isCache custom then
            (case getSQL enc builder d of
               Panics p \<Rightarrow> Panics p
             | Returns (builder1, query0, Some err) \<Rightarrow>
                 Returns (builder1, dest, 0, Some (EventErrKv log ''dbr.select.cache.getSQL'' err query0),
                          h @ [EventErr ''dbr.select.cache.getSQL'' err query0])
             | Returns (builder1, query0, None) \<Rightarrow>
                 let query = (if isCount custom then count_sql query0 else query0) in
                 if cacheKey custom = [] then
                   Returns (builder1, dest, 0, Some (EventErrKv log ''dbr.select.cache.key'' (ErrorsNew ''cache.key can not be empty'') query),
                            h @ [EventErr ''dbr.select.cache.key'' (ErrorsNew ''cache.key can not be empty'') query])
                 else
                   (case cache_read ext log custom query dest h of
                      (Some (count, err), dest', h') \<Rightarrow> Returns (builder1, dest', count, err, h')
                    | (None, dest', h') \<Rightarrow>
                        query_database enc ext runner log builder1 d dest' (isCount custom) (Some custom) h'))
          else query_database enc ext runner log builder d dest (isCount custom) None h)"


section \<open>What a built statement is, in the words of the specification\<close>

text \<open>
  The texts and values that the theorems below compare \<open>Build\<close> against. \<open>join\<close>
  puts a separator between the pieces.
\<close>

fun join :: "string \<Rightarrow> string list \<Rightarrow> string" where
  "join sep [] = []"
| "join sep [x] = x"
| "join sep (x # y # ys) = x @ sep @ join sep (y # ys)"

text \<open>
  One column of the \<open>SET\<close> list over a window of \<open>n\<close> rows: a trailing \<open>+\<close> or \<open>-\<close> is
  stripped and the column is set to itself plus or minus the \<open>CASE\<close>; any other column
  is set to the \<open>CASE\<close>.
\<close>

definition column_sql :: "Dialect \<Rightarrow> string \<Rightarrow> nat \<Rightarrow> string \<Rightarrow> string" where
  "column_sql d pk n col =
     (if last col = CHR ''+'' then
        QuoteIdent d (butlast col) @ '' = '' @ QuoteIdent d (butlast col) @ '' + ''
      else if last col = CHR ''-'' then
        QuoteIdent d (butlast col) @ '' = '' @ QuoteIdent d (butlast col) @ '' - ''
      else QuoteIdent d col @ '' = '')
     @ '' CASE '' @ QuoteIdent d pk @ concat (replicate n '' WHEN ? THEN ? '') @ '' END ''"

definition column_values :: "nat \<Rightarrow> CaseUpdateValue list \<Rightarrow> iface list" where
  "column_values i w = concat (map (\<lambda>v. [IString (Key v), Val v ! i]) w)"

definition stmt_sql :: "Dialect \<Rightarrow> CaseUpdateStmt \<Rightarrow> nat \<Rightarrow> string" where
  "stmt_sql d b n =
     ''UPDATE '' @ QuoteIdent d (Table b) @ '' SET ''
     @ join '', '' (map (column_sql d (PKey b) n) (Column b))
     @ '' WHERE '' @ QuoteIdent d (PKey b) @ '' IN ('' @ join '', '' (replicate n '' ? '') @ '' )''"

definition stmt_values :: "CaseUpdateStmt \<Rightarrow> CaseUpdateValue list \<Rightarrow> iface list" where
  "stmt_values b w =
     concat (map (\<lambda>i. column_values i w) [0..<length (Column b)])
     @ map (\<lambda>v. IString (Key v)) w"

text \<open>
  A statement that \<open>Build\<close> takes without an error or a panic at any window: a table,
  at least one column, no empty column name, and a value for every column in every row.
\<close>

definition buildable :: "CaseUpdateStmt \<Rightarrow> bool" where
  "buildable b \<longleftrightarrow>
     Table b \<noteq> [] \<and> Column b \<noteq> [] \<and> (\<forall>col \<in> set (Column b). col \<noteq> [])
     \<and> (\<forall>v \<in> set (Value b). length (Column b) \<le> length (Val v))"



text \<open>What one cycle of \<open>Exec\<close> over the window \<open>w\<close> adds to the events when nothing fails.\<close>

definition cycle_events :: "interpolation \<Rightarrow> Dialect \<Rightarrow> CaseUpdateStmt \<Rightarrow> CaseUpdateValue list \<Rightarrow> event list" where
  "cycle_events interpolate d b w =
     (case interpolate d (stmt_sql d b (length w)) (stmt_values b w) of
        (sql, args, err) \<Rightarrow> [DriverExec sql args, Timing ''dbr.exec'' sql])"


section \<open>What a call of query comes to\<close>



text \<open>The same directive over a cache in which every read is a miss.\<close>

definition missing :: "Custom \<Rightarrow> Custom" where
  "missing custom = custom\<lparr>cache := (cache custom)\<lparr>GetBytes := (\<lambda>h key. ([], False, None))\<rparr>\<rparr>"

section \<open>An environment to run the functions in\<close>

text \<open>
  Backtick quoting, a placeholder pass that leaves the built text and values as they
  are, a driver on which every statement succeeds, and the package's
  \<open>NullEventReceiver\<close>, whose \<open>EventErrKv\<close> returns the error it is given.
\<close>

definition backtick :: Dialect where
  "backtick = \<lparr>QuoteIdent = (\<lambda>s. ''`'' @ s @ ''`'')\<rparr>"


definition always_ok :: "unit runner" where
  "always_ok =
     \<lparr>ExecContext = (\<lambda>h sql args. Inr \<lparr>LastInsertId = 0, RowsAffected = 1\<rparr>),
      QueryContext = (\<lambda>h sql args. Inr ())\<rparr>"

definition nullReceiver :: EventReceiver where
  "nullReceiver = \<lparr>EventErrKv = (\<lambda>eventName err sql. err)\<rparr>"

text \<open>
  For the read path: a builder that is its own SQL text, a driver whose every query
  yields a cursor (here the count that a scan of it gives), a \<open>gob\<close> in which a count
  is one byte and nothing else can be coded, a cache that is down, an empty cache, and
  the directive that asks for a cached row count under a key for 60 seconds.
\<close>

definition raw_sql :: "string encoder" where
  "raw_sql d builder = Returns (builder, builder, [], None)"

definition counting :: "int \<Rightarrow> int runner" where
  "counting n =
     \<lparr>ExecContext = (\<lambda>h sql args. Inr \<lparr>LastInsertId = 0, RowsAffected = n\<rparr>),
      QueryContext = (\<lambda>h sql args. Inr n)\<rparr>"

definition one_byte_gob :: "(int, unit) externals" where
  "one_byte_gob =
     \<lparr>DecodeCount = (\<lambda>bs. case bs of [b] \<Rightarrow> Inr (uint b) | _ \<Rightarrow> Inl (External ''gob: bad data'')),
      DecodeDest = (\<lambda>bs dest. (dest, Some (External ''gob: bad data''))),
      EncodeCount = (\<lambda>n. if 0 \<le> n \<and> n < 256 then Inr [word_of_int n]
                          else Inl (External ''gob: out of range'')),
      EncodeDest = (\<lambda>dest. Inl (External ''gob: type not registered'')),
      ScanCount = (\<lambda>rows. rows),
      Load = (\<lambda>rows dest. (rows, dest, None))\<rparr>"

definition cache_down :: customCache where
  "cache_down =
     \<lparr>Set = (\<lambda>h key bs ttl. Some (External ''cache: connection refused'')),
      GetBytes = (\<lambda>h key. ([], False, Some (External ''cache: connection refused''))),
      Del = (\<lambda>h key. Some (External ''cache: connection refused''))\<rparr>"

definition cache_empty :: customCache where
  "cache_empty =
     \<lparr>Set = (\<lambda>h key bs ttl. None),
      GetBytes = (\<lambda>h key. ([], False, None)),
      Del = (\<lambda>h key. None)\<rparr>"

definition count_cached :: "customCache \<Rightarrow> string \<Rightarrow> Custom" where
  "count_cached c key =
     \<lparr>isCount = True, isCache = True, cache = c, cacheKey = key, cacheExpire = 60\<rparr>"

section \<open>Build, loop by loop\<close>

lemma join_Cons: "join sep (x # xs) = x @ (if xs = [] then [] else sep @ join sep xs)"
  by (cases xs) simp_all

lemma when_clauses_total:
  "\<forall>v \<in> set vs. i < length (Val v) \<Longrightarrow> \<exists>buf'. when_clauses rl i x vs buf = Returns buf'"
  by (induction vs arbitrary: x buf) auto

lemma when_clauses_panic:
  "when_clauses rl i x vs buf = Panics p \<Longrightarrow> p = IndexOutOfRange"
  by (induction vs arbitrary: x buf) (auto split: if_splits)

lemma when_clauses_returns:
  "0 < rl \<Longrightarrow> when_clauses rl i x vs buf = Returns buf' \<Longrightarrow>
   buf' = \<lparr>str = str buf @ concat (replicate (length (take (nat rl - x) vs)) '' WHEN ? THEN ? ''),
           val = val buf @ column_values i (take (nat rl - x) vs)\<rparr>"
proof (induction vs arbitrary: x buf)
  case Nil
  then show ?case by (simp add: column_values_def)
next
  case (Cons v vs)
  show ?case
  proof (cases "rl \<le> int x")
    case True
    then have "nat rl - x = 0" by arith
    with True Cons.prems show ?thesis by (simp add: column_values_def)
  next
    case False
    then have lt: "x < nat rl" by arith
    then obtain k where k: "nat rl - x = Suc k" and k': "nat rl - Suc x = k"
      by (metis Suc_diff_Suc)
    from Cons.prems(2) False have iv: "i < length (Val v)"
      by (auto split: if_splits)
    with Cons.prems(2) False have
      "when_clauses rl i (Suc x) vs
         (WriteValue (WriteValue (WriteString buf '' WHEN ? THEN ? '') (IString (Key v))) (Val v ! i))
       = Returns buf'"
      by simp
    from Cons.IH[OF Cons.prems(1) this] show ?thesis
      using k k' by (simp add: column_values_def WriteString_def WriteValue_def)
  qed
qed

lemma set_clauses_total:
  "\<forall>col \<in> set cols. col \<noteq> [] \<Longrightarrow>
   \<forall>v \<in> set (Value b). i + length cols \<le> length (Val v) \<Longrightarrow>
   \<exists>buf'. set_clauses d b i cols buf = Returns buf'"
proof (induction cols arbitrary: i buf)
  case Nil
  then show ?case by simp
next
  case (Cons col cols)
  have ne: "col \<noteq> []" and rest: "\<forall>c \<in> set cols. c \<noteq> []"
    using Cons.prems(1) by simp_all
  have iv: "\<forall>v \<in> set (Value b). i < length (Val v)"
    using Cons.prems(2) by fastforce
  have rows: "\<forall>v \<in> set (Value b). Suc i + length cols \<le> length (Val v)"
    using Cons.prems(2) by simp
  let ?buf1 = "if 0 < i then WriteString buf '', '' else buf"
  let ?buf2 = "if last col = CHR ''+'' \<or> last col = CHR ''-'' then
                 WriteString
                   (WriteString
                      (WriteString (WriteString ?buf1 (QuoteIdent d (butlast col))) '' = '')
                      (QuoteIdent d (butlast col)))
                   ('' '' @ [last col] @ '' '')
               else WriteString (WriteString ?buf1 (QuoteIdent d col)) '' = ''"
  let ?buf3 = "WriteString (WriteString ?buf2 '' CASE '') (QuoteIdent d (PKey b))"
  obtain buf4 where "when_clauses (RunLen b) i 0 (Value b) ?buf3 = Returns buf4"
    using when_clauses_total[OF iv] by blast
  then show ?case
    using ne Cons.IH[OF rest rows] by (simp add: Let_def)
qed

lemma set_clauses_returns:
  "0 < RunLen b \<Longrightarrow> set_clauses d b i cols buf = Returns buf' \<Longrightarrow>
   buf' = \<lparr>str = str buf @ (if 0 < i \<and> cols \<noteq> [] then '', '' else [])
                  @ join '', '' (map (column_sql d (PKey b) (length (take (nat (RunLen b)) (Value b)))) cols),
           val = val buf @ concat (map (\<lambda>j. column_values j (take (nat (RunLen b)) (Value b))) [i..<i + length cols])\<rparr>"
proof (induction cols arbitrary: i buf)
  case Nil
  then show ?case by simp
next
  case (Cons col cols)
  from Cons.prems(2) have ne: "col \<noteq> []"
    by (auto simp: Let_def split: if_splits)
  let ?buf1 = "if 0 < i then WriteString buf '', '' else buf"
  let ?buf2 = "if last col = CHR ''+'' \<or> last col = CHR ''-'' then
                 WriteString
                   (WriteString
                      (WriteString (WriteString ?buf1 (QuoteIdent d (butlast col))) '' = '')
                      (QuoteIdent d (butlast col)))
                   ('' '' @ [last col] @ '' '')
               else WriteString (WriteString ?buf1 (QuoteIdent d col)) '' = ''"
  let ?buf3 = "WriteString (WriteString ?buf2 '' CASE '') (QuoteIdent d (PKey b))"
  from Cons.prems(2) ne obtain buf4 where
    w: "when_clauses (RunLen b) i 0 (Value b) ?buf3 = Returns buf4"
    and r: "set_clauses d b (Suc i) cols (WriteString buf4 '' END '') = Returns buf'"
    by (auto simp: Let_def split: res.splits)
  have b4: "buf4 = \<lparr>str = str ?buf3 @ concat (replicate (length (take (nat (RunLen b)) (Value b))) '' WHEN ? THEN ? ''),
                   val = val ?buf3 @ column_values i (take (nat (RunLen b)) (Value b))\<rparr>"
    using when_clauses_returns[OF Cons.prems(1) w] by simp
  have s4: "str (WriteString buf4 '' END '') = str buf @ (if 0 < i then '', '' else [])
      @ column_sql d (PKey b) (length (take (nat (RunLen b)) (Value b))) col"
    by (simp add: b4 column_sql_def WriteString_def del: length_take)
  have v4: "val (WriteString buf4 '' END '') = val buf @ column_values i (take (nat (RunLen b)) (Value b))"
    by (simp add: b4 WriteString_def)
  have upt: "[i..<i + length (col # cols)] = i # [Suc i..<Suc i + length cols]"
    using upt_conv_Cons[of i "Suc (i + length cols)"] by simp
  show ?case
    unfolding Cons.IH[OF Cons.prems(1) r] upt s4 v4
    by (simp add: join_Cons)
qed

lemma where_keys_ok:
  "0 < rl \<Longrightarrow> where_keys rl x vs acc = acc @ map Key (take (nat rl - x) vs)"
proof (induction vs arbitrary: x acc)
  case Nil
  then show ?case by simp
next
  case (Cons v vs)
  show ?case
  proof (cases "rl \<le> int x")
    case True
    then have "nat rl - x = 0" by arith
    with True Cons.prems show ?thesis by simp
  next
    case False
    then have lt: "x < nat rl" by arith
    then obtain k where k: "nat rl - x = Suc k" and k': "nat rl - Suc x = k"
      by (metis Suc_diff_Suc)
    show ?thesis using False Cons.IH[OF Cons.prems, of "Suc x"] k k' by simp
  qed
qed

lemma in_list_ok:
  "in_list i keys buf =
     \<lparr>str = str buf @ (if 0 < i \<and> keys \<noteq> [] then '', '' else [])
                 @ join '', '' (replicate (length keys) '' ? ''),
      val = val buf @ map IString keys\<rparr>"
proof (induction keys arbitrary: i buf)
  case Nil
  then show ?case by simp
next
  case (Cons key keys)
  show ?case
    by (simp add: Cons.IH join_Cons WriteString_def WriteValue_def)
qed

text \<open>
  A \<open>Build\<close> that returns no error: \<open>K\<close> is the batch size in force, the default
  of 1000 standing in for 0.
\<close>

lemma Build_returns:
  assumes ret: "Build d b buf = Returns (b', buf', None)"
  defines "K \<equiv> (if RunLen b = 0 then 1000 else RunLen b)"
  shows "0 < K"
    and "b' = b\<lparr>RunLen := K, Value := drop (nat K) (Value b)\<rparr>"
    and "buf' = \<lparr>str = str buf @ stmt_sql d b (length (take (nat K) (Value b))),
                 val = val buf @ stmt_values b (take (nat K) (Value b))\<rparr>"
proof -
  let ?b = "b\<lparr>RunLen := K\<rparr>"
  let ?buf1 = "WriteString (WriteString (WriteString buf ''UPDATE '') (QuoteIdent d (Table b))) '' SET ''"
  have b0: "(if RunLen b = 0 then b\<lparr>RunLen := 1000\<rparr> else b) = ?b"
    by (simp add: K_def)
  from ret obtain buf2 where
    sc: "set_clauses d ?b 0 (Column b) ?buf1 = Returns buf2"
    and co: "consume ?b = Returns b'"
    and bf: "buf' = WriteString (in_list 0 (where_keys K 0 (Value b) [])
               (WriteString (WriteString (WriteString buf2 '' WHERE '') (QuoteIdent d (PKey b))) '' IN ('')) '' )''"
    unfolding Build_def b0
    by (auto simp: Let_def split: if_splits res.splits)
  have K0: "K \<noteq> 0" by (simp add: K_def)
  from co K0 have Kpos: "0 < K" and b': "b' = b\<lparr>RunLen := K, Value := drop (nat K) (Value b)\<rparr>"
    by (auto simp: consume_def split: if_splits)
  have pos: "0 < RunLen ?b" using Kpos by simp
  have b2: "buf2 = \<lparr>str = str ?buf1 @ join '', '' (map (column_sql d (PKey b) (length (take (nat K) (Value b)))) (Column b)),
                   val = val ?buf1 @ concat (map (\<lambda>j. column_values j (take (nat K) (Value b))) [0..<length (Column b)])\<rparr>"
    using set_clauses_returns[OF pos sc] by simp
  show "0 < K" by (rule Kpos)
  show "b' = b\<lparr>RunLen := K, Value := drop (nat K) (Value b)\<rparr>" by (rule b')
  show "buf' = \<lparr>str = str buf @ stmt_sql d b (length (take (nat K) (Value b))),
                 val = val buf @ stmt_values b (take (nat K) (Value b))\<rparr>"
    unfolding bf b2
    by (simp add: where_keys_ok[OF Kpos] in_list_ok stmt_sql_def stmt_values_def WriteString_def
        del: length_take)
qed

lemma Build_total:
  assumes ok: "buildable b" and nn: "0 \<le> RunLen b"
  shows "\<exists>b' buf'. Build d b buf = Returns (b', buf', None)"
proof -
  let ?b = "if RunLen b = 0 then b\<lparr>RunLen := 1000\<rparr> else b"
  have cols: "\<forall>col \<in> set (Column ?b). col \<noteq> []"
    and rows: "\<forall>v \<in> set (Value ?b). 0 + length (Column ?b) \<le> length (Val v)"
    and t: "Table ?b \<noteq> []" and c: "Column ?b \<noteq> []"
    using ok by (simp_all add: buildable_def)
  obtain buf2 where sc: "set_clauses d ?b 0 (Column ?b)
      (WriteString (WriteString (WriteString buf ''UPDATE '') (QuoteIdent d (Table ?b))) '' SET '') = Returns buf2"
    using set_clauses_total[OF cols rows] by blast
  have "\<exists>b'. consume ?b = Returns b'"
    using nn by (simp add: consume_def)
  then obtain b' where co: "consume ?b = Returns b'" by blast
  show ?thesis
    unfolding Build_def Let_def using t c sc co by simp
qed

lemma Build_buildable:
  assumes ok: "buildable b" and nn: "0 \<le> RunLen b"
  defines "K \<equiv> (if RunLen b = 0 then 1000 else RunLen b)"
  shows "Build d b buf =
     Returns (b\<lparr>RunLen := K, Value := drop (nat K) (Value b)\<rparr>,
              \<lparr>str = str buf @ stmt_sql d b (length (take (nat K) (Value b))),
               val = val buf @ stmt_values b (take (nat K) (Value b))\<rparr>,
              None)"
proof -
  obtain b' buf' where r: "Build d b buf = Returns (b', buf', None)"
    using Build_total[OF ok nn] by blast
  show ?thesis
    unfolding r K_def using Build_returns(2,3)[OF r] by simp
qed

lemma set_clauses_empty_name:
  "[] \<in> set cols \<Longrightarrow> set_clauses d b i cols buf = Panics IndexOutOfRange"
proof (induction cols arbitrary: i buf)
  case Nil
  then show ?case by simp
next
  case (Cons col cols)
  show ?case
  proof (cases "col = []")
    case True
    then show ?thesis by (simp add: Let_def)
  next
    case False
    with Cons.prems have "[] \<in> set cols" by auto
    from Cons.IH[OF this] False show ?thesis
      by (auto simp: Let_def split: res.splits dest: when_clauses_panic)
  qed
qed

lemma Values_duplicates_key:
  assumes "v \<in> set (Value b)" and "Key v = Sprint pk"
  shows "2 \<le> length (filter (\<lambda>r. Key r = Sprint pk) (Value (Values b pk vals)))"
proof -
  let ?f = "\<lambda>v. if Key v = Sprint pk then v\<lparr>Val := vals\<rparr> else v"
  have "filter (\<lambda>r. Key r = Sprint pk) (Value b) \<noteq> []"
    using assms by (auto simp: filter_empty_conv)
  then have one: "1 \<le> length (filter (\<lambda>r. Key r = Sprint pk) (Value b))"
    by (simp add: Suc_leI)
  have "length (filter (\<lambda>r. Key r = Sprint pk) (map ?f xs))
      = length (filter (\<lambda>r. Key r = Sprint pk) xs)" for xs :: "CaseUpdateValue list"
    by (induction xs) simp_all
  then have "length (filter (\<lambda>r. Key r = Sprint pk) (map ?f (Value b)))
      = length (filter (\<lambda>r. Key r = Sprint pk) (Value b))" .
  with one show ?thesis by (simp add: Values_def Let_def)
qed

section \<open>Claims about the case-update builder\<close>

text \<open>
  Claim C1 says that a second \<open>Values\<close> with a primary key already accumulated replaces
  the row, so that the built statement has one \<open>WHEN\<close> per column for the key.
  \<open>Values\<close> does overwrite the row it finds, and then appends a second row for the key
  all the same: after \<open>Values(1, "x")\<close> and \<open>Values(1, "y")\<close> the statement built has two
  \<open>WHEN\<close> clauses for key 1 (both with the latest value) and names the key twice in
  the \<open>IN\<close> list.
\<close>

theorem Values_same_key_twice_two_WHEN:
  "Build backtick
     (Values (Values (Columns (CaseUpdate ''t'') ''id'' [''a'']) (IInt 1) [IString ''x''])
        (IInt 1) [IString ''y''])
     NewBuffer
   = Returns
       (\<lparr>Table = ''t'', PKey = ''id'', RunLen = 1000, Column = [''a''], Value = [], ReturnColumn = []\<rparr>,
        \<lparr>str = ''UPDATE `t` SET `a` =  CASE `id` WHEN ? THEN ?  WHEN ? THEN ?  END  WHERE `id` IN ( ? ,  ?  )'',
         val = [IString ''1'', IString ''y'', IString ''1'', IString ''y'', IString ''1'', IString ''1'']\<rparr>,
        None)"
  by code_simp

text \<open>
  Claim C9: with a table and with the empty string among the column names, \<open>Build\<close>
  does not return an error; it panics with an index out of range.
\<close>

theorem Build_empty_column_name_panics:
  assumes "Table b \<noteq> []" and "[] \<in> set (Column b)"
  shows "Build d b buf = Panics IndexOutOfRange"
proof -
  have "Column b \<noteq> []" using assms(2) by auto
  then show ?thesis
    using assms by (simp add: Build_def Let_def set_clauses_empty_name)
qed

text \<open>The statement \<open>CaseUpdate("t").Columns("id", "a", "").Values(1, "x", "y")\<close>.\<close>

theorem Build_empty_column_name_panics_witness:
  "Table (Values (Columns (CaseUpdate ''t'') ''id'' [''a'', '''']) (IInt 1) [IString ''x'', IString ''y'']) \<noteq> []
   \<and> [] \<in> set (Column (Values (Columns (CaseUpdate ''t'') ''id'' [''a'', '''']) (IInt 1) [IString ''x'', IString ''y'']))
   \<and> Build backtick (Values (Columns (CaseUpdate ''t'') ''id'' [''a'', '''']) (IInt 1) [IString ''x'', IString ''y'']) NewBuffer
       = Panics IndexOutOfRange"
proof -
  let ?b = "Values (Columns (CaseUpdate ''t'') ''id'' [''a'', '''']) (IInt 1) [IString ''x'', IString ''y'']"
  have t: "Table ?b \<noteq> []" by (simp add: Values_def Columns_def CaseUpdate_def Let_def)
  have c: "[] \<in> set (Column ?b)" by (simp add: Values_def Columns_def CaseUpdate_def Let_def)
  from t c Build_empty_column_name_panics[OF t c, of backtick NewBuffer] show ?thesis by simp
qed

text \<open>
  Claim C10 says that \<open>Build\<close> panics on every statement with a negative \<open>RunLen\<close>.
  A statement without a table is turned away before anything is sliced: \<open>Build\<close>
  returns \<open>ErrTableNotSpecified\<close>.
\<close>

theorem Build_negative_RunLen_no_table_counterexample:
  "Build backtick (SetRunLen (Values (Columns (CaseUpdate '''') ''id'' [''a'']) (IInt 1) [IString ''x'']) (- 1)) NewBuffer
   = Returns
       (\<lparr>Table = '''', PKey = ''id'', RunLen = - 1, Column = [''a''],
         Value = [\<lparr>Key = ''1'', Val = [IString ''x'']\<rparr>], ReturnColumn = []\<rparr>,
        NewBuffer, Some ErrTableNotSpecified)"
  by code_simp

text \<open>
  Claim C10, amended: with a negative \<open>RunLen\<close>, a table and a column, \<open>Build\<close> panics;
  when no column name is empty and no row is short, the panic is the slice
  \<open>Value[RunLen:]\<close> with its negative bound.
\<close>

theorem Build_negative_RunLen_panics:
  assumes "RunLen b < 0" and "Table b \<noteq> []" and "Column b \<noteq> []"
  shows "(\<exists>p. Build d b buf = Panics p)
       \<and> (buildable b \<longrightarrow> Build d b buf = Panics SliceBoundsOutOfRange)"
proof -
  have co: "consume b = Panics SliceBoundsOutOfRange"
    using assms(1) by (simp add: consume_def)
  have r: "RunLen b \<noteq> 0" using assms(1) by simp
  have 1: "\<exists>p. Build d b buf = Panics p"
    using assms(2,3) r co by (simp add: Build_def Let_def split: res.splits)
  have 2: "Build d b buf = Panics SliceBoundsOutOfRange" if ok: "buildable b"
  proof -
    have cols: "\<forall>col \<in> set (Column b). col \<noteq> []"
      and rows: "\<forall>v \<in> set (Value b). 0 + length (Column b) \<le> length (Val v)"
      using ok by (simp_all add: buildable_def)
    obtain buf2 where "set_clauses d b 0 (Column b)
        (WriteString (WriteString (WriteString buf ''UPDATE '') (QuoteIdent d (Table b))) '' SET '') = Returns buf2"
      using set_clauses_total[OF cols rows] by blast
    then show ?thesis
      using assms(2,3) r co by (simp add: Build_def Let_def)
  qed
  from 1 2 show ?thesis by blast
qed

theorem Build_negative_RunLen_panics_witness:
  "RunLen (SetRunLen (Values (Columns (CaseUpdate ''t'') ''id'' [''a'']) (IInt 1) [IString ''x'']) (- 1)) < 0
   \<and> Table (SetRunLen (Values (Columns (CaseUpdate ''t'') ''id'' [''a'']) (IInt 1) [IString ''x'']) (- 1)) \<noteq> []
   \<and> Column (SetRunLen (Values (Columns (CaseUpdate ''t'') ''id'' [''a'']) (IInt 1) [IString ''x'']) (- 1)) \<noteq> []
   \<and> buildable (SetRunLen (Values (Columns (CaseUpdate ''t'') ''id'' [''a'']) (IInt 1) [IString ''x'']) (- 1))
   \<and> Build backtick (SetRunLen (Values (Columns (CaseUpdate ''t'') ''id'' [''a'']) (IInt 1) [IString ''x'']) (- 1)) NewBuffer
       = Panics SliceBoundsOutOfRange"
proof -
  let ?b = "SetRunLen (Values (Columns (CaseUpdate ''t'') ''id'' [''a'']) (IInt 1) [IString ''x'']) (- 1)"
  have r: "RunLen ?b < 0" by (simp add: SetRunLen_def)
  have t: "Table ?b \<noteq> []" by (simp add: SetRunLen_def Values_def Columns_def CaseUpdate_def Let_def)
  have c: "Column ?b \<noteq> []" by (simp add: SetRunLen_def Values_def Columns_def CaseUpdate_def Let_def)
  have ok: "buildable ?b"
    by (simp add: buildable_def SetRunLen_def Values_def Columns_def CaseUpdate_def Let_def)
  from Build_negative_RunLen_panics[OF r t c, of backtick NewBuffer] ok
  have "Build backtick ?b NewBuffer = Panics SliceBoundsOutOfRange" by blast
  with r t c ok show ?thesis by blast
qed

text \<open>
  A statement with a delta column of each sign and a plain column, two rows and a batch
  size of 1: \<open>Build\<close> covers the first row and leaves the second.
\<close>

lemma delta_statement_built:
  "Build backtick
     (SetRunLen (Values (Values (Columns (CaseUpdate ''t'') ''id'' [''a+'', ''b-'', ''c''])
                   (IInt 1) [IInt 5, IInt 6, IString ''x''])
                   (IInt 2) [IInt 7, IInt 8, IString ''y'']) 1)
     NewBuffer
   = Returns
      (\<lparr>Table = ''t'', PKey = ''id'', RunLen = 1, Column = [''a+'', ''b-'', ''c''],
        Value = [\<lparr>Key = ''2'', Val = [IInt 7, IInt 8, IString ''y'']\<rparr>], ReturnColumn = []\<rparr>,
       \<lparr>str = ''UPDATE `t` SET `a` = `a` +  CASE `id` WHEN ? THEN ?  END , `b` = `b` -  CASE `id` WHEN ? THEN ?  END , `c` =  CASE `id` WHEN ? THEN ?  END  WHERE `id` IN ( ?  )'',
        val = [IString ''1'', IInt 5, IString ''1'', IInt 6, IString ''1'', IString ''x'', IString ''1'']\<rparr>,
       None)"
  by code_simp

text \<open>
  Claim C5: whenever \<open>Build\<close> returns without an error, the text it has written is the
  \<open>UPDATE\<close> whose \<open>SET\<close> list holds, for every column name in order, that column's
  \<open>column_sql\<close> over the window; a name with a trailing \<open>+\<close> is rendered, stripped of
  it, as \<open>col = col + CASE ... END\<close>, one with a trailing \<open>-\<close> as
  \<open>col = col - CASE ... END\<close>, and any other name as \<open>col = CASE ... END\<close>.
\<close>

theorem Build_renders_columns:
  assumes "Build d b buf = Returns (b', buf', None)"
  shows "(let n = min (length (Value b)) (nat (if RunLen b = 0 then 1000 else RunLen b)) in
          str buf' =
            str buf @ ''UPDATE '' @ QuoteIdent d (Table b) @ '' SET ''
            @ join '', '' (map (column_sql d (PKey b) n) (Column b))
            @ '' WHERE '' @ QuoteIdent d (PKey b) @ '' IN ('' @ join '', '' (replicate n '' ? '') @ '' )'')
       \<and> column_sql d pk m (name @ ''+'') =
            QuoteIdent d name @ '' = '' @ QuoteIdent d name @ '' + ''
            @ '' CASE '' @ QuoteIdent d pk @ concat (replicate m '' WHEN ? THEN ? '') @ '' END ''
       \<and> column_sql d pk m (name @ ''-'') =
            QuoteIdent d name @ '' = '' @ QuoteIdent d name @ '' - ''
            @ '' CASE '' @ QuoteIdent d pk @ concat (replicate m '' WHEN ? THEN ? '') @ '' END ''
       \<and> (col \<noteq> [] \<and> last col \<noteq> CHR ''+'' \<and> last col \<noteq> CHR ''-'' \<longrightarrow>
            column_sql d pk m col =
              QuoteIdent d col @ '' = ''
              @ '' CASE '' @ QuoteIdent d pk @ concat (replicate m '' WHEN ? THEN ? '') @ '' END '')"
proof -
  have "str buf' = str buf @ stmt_sql d b (length (take (nat (if RunLen b = 0 then 1000 else RunLen b)) (Value b)))"
    using Build_returns(3)[OF assms] by simp
  then have 1: "let n = min (length (Value b)) (nat (if RunLen b = 0 then 1000 else RunLen b)) in
          str buf' =
            str buf @ ''UPDATE '' @ QuoteIdent d (Table b) @ '' SET ''
            @ join '', '' (map (column_sql d (PKey b) n) (Column b))
            @ '' WHERE '' @ QuoteIdent d (PKey b) @ '' IN ('' @ join '', '' (replicate n '' ? '') @ '' )''"
    unfolding stmt_sql_def Let_def by simp
  have 2: "column_sql d pk m (name @ ''+'') =
            QuoteIdent d name @ '' = '' @ QuoteIdent d name @ '' + ''
            @ '' CASE '' @ QuoteIdent d pk @ concat (replicate m '' WHEN ? THEN ? '') @ '' END ''"
    by (simp add: column_sql_def)
  have 3: "column_sql d pk m (name @ ''-'') =
            QuoteIdent d name @ '' = '' @ QuoteIdent d name @ '' - ''
            @ '' CASE '' @ QuoteIdent d pk @ concat (replicate m '' WHEN ? THEN ? '') @ '' END ''"
    by (simp add: column_sql_def)
  have 4: "col \<noteq> [] \<and> last col \<noteq> CHR ''+'' \<and> last col \<noteq> CHR ''-'' \<longrightarrow>
            column_sql d pk m col =
              QuoteIdent d col @ '' = ''
              @ '' CASE '' @ QuoteIdent d pk @ concat (replicate m '' WHEN ? THEN ? '') @ '' END ''"
    by (simp add: column_sql_def)
  from 1 2 3 4 show ?thesis by blast
qed

theorem Build_renders_columns_witness:
  "Build backtick
     (SetRunLen (Values (Values (Columns (CaseUpdate ''t'') ''id'' [''a+'', ''b-'', ''c''])
                   (IInt 1) [IInt 5, IInt 6, IString ''x''])
                   (IInt 2) [IInt 7, IInt 8, IString ''y'']) 1)
     NewBuffer
   = Returns
      (\<lparr>Table = ''t'', PKey = ''id'', RunLen = 1, Column = [''a+'', ''b-'', ''c''],
        Value = [\<lparr>Key = ''2'', Val = [IInt 7, IInt 8, IString ''y'']\<rparr>], ReturnColumn = []\<rparr>,
       \<lparr>str = ''UPDATE `t` SET `a` = `a` +  CASE `id` WHEN ? THEN ?  END , `b` = `b` -  CASE `id` WHEN ? THEN ?  END , `c` =  CASE `id` WHEN ? THEN ?  END  WHERE `id` IN ( ?  )'',
        val = [IString ''1'', IInt 5, IString ''1'', IInt 6, IString ''1'', IString ''x'', IString ''1'']\<rparr>,
       None)
   \<and> column_sql backtick ''id'' 1 ''a+'' = ''`a` = `a` +  CASE `id` WHEN ? THEN ?  END ''
   \<and> column_sql backtick ''id'' 1 ''b-'' = ''`b` = `b` -  CASE `id` WHEN ? THEN ?  END ''
   \<and> (''c'' \<noteq> [] \<and> last ''c'' \<noteq> CHR ''+'' \<and> last ''c'' \<noteq> CHR ''-'')
   \<and> column_sql backtick ''id'' 1 ''c'' = ''`c` =  CASE `id` WHEN ? THEN ?  END ''"
proof -
  note T = Build_renders_columns[OF delta_statement_built, of "''id''" 1 "''a''" "''c''"]
  have a: "column_sql backtick ''id'' 1 ''a+'' = ''`a` = `a` +  CASE `id` WHEN ? THEN ?  END ''"
    using T by (simp add: backtick_def)
  have b: "column_sql backtick ''id'' 1 ''b-'' = ''`b` = `b` -  CASE `id` WHEN ? THEN ?  END ''"
    using Build_renders_columns[OF delta_statement_built, of "''id''" 1 "''b''" "''c''"]
    by (simp add: backtick_def)
  have c: "column_sql backtick ''id'' 1 ''c'' = ''`c` =  CASE `id` WHEN ? THEN ?  END ''"
    using T by (simp add: backtick_def)
  from delta_statement_built a b c show ?thesis by simp
qed

text \<open>
  Claim C2 says that \<open>Build\<close> uses a window of 1000 rows when \<open>SetRunLen\<close> was never
  called, and one unbounded window when \<open>RunLen\<close> was set to 0. \<open>Build\<close> cannot tell
  the two apart: it starts by replacing a \<open>RunLen\<close> of 0 with 1000. After
  \<open>SetRunLen(0)\<close> on 1001 rows it covers 1000 of them and leaves one.
\<close>

theorem Build_RunLen_0_leaves_rows_counterexample:
  "Build backtick
     (SetRunLen
        \<lparr>Table = ''t'', PKey = ''id'', RunLen = 7, Column = [''a''],
         Value = replicate 1001 \<lparr>Key = ''k'', Val = [IInt 0]\<rparr>, ReturnColumn = []\<rparr> 0)
     NewBuffer
   = Returns
       (\<lparr>Table = ''t'', PKey = ''id'', RunLen = 1000, Column = [''a''],
         Value = [\<lparr>Key = ''k'', Val = [IInt 0]\<rparr>], ReturnColumn = []\<rparr>,
        \<lparr>str = ''UPDATE `t` SET `a` =  CASE `id`'' @ concat (replicate 1000 '' WHEN ? THEN ? '')
               @ '' END  WHERE `id` IN ('' @ join '', '' (replicate 1000 '' ? '') @ '' )'',
         val = concat (replicate 1000 [IString ''k'', IInt 0]) @ replicate 1000 (IString ''k'')\<rparr>,
        None)"
proof -
  let ?row = "\<lparr>Key = ''k'', Val = [IInt 0]\<rparr>"
  let ?b = "\<lparr>Table = ''t'', PKey = ''id'', RunLen = 0, Column = [''a''],
         Value = replicate 1001 ?row, ReturnColumn = []\<rparr>"
  have ok: "buildable ?b" by (simp add: buildable_def)
  have nn: "0 \<le> RunLen ?b" by simp
  have d: "drop 1000 (replicate 1001 ?row) = [?row]"
    by (simp add: drop_replicate)
  have cv: "column_values 0 (replicate 1000 ?row) = concat (replicate 1000 [IString ''k'', IInt 0])"
    by (simp add: column_values_def map_replicate_const)
  show ?thesis
    unfolding SetRunLen_def
    using Build_buildable[OF ok nn, of backtick NewBuffer]
    by (simp add: d cv stmt_sql_def stmt_values_def column_sql_def backtick_def NewBuffer_def
        map_replicate_const)
qed

text \<open>Two rows and no \<open>SetRunLen\<close>: one statement covers both.\<close>

lemma two_rows_unset_built:
  "Build backtick
     (Values (Values (Columns (CaseUpdate ''t'') ''id'' [''a'']) (IInt 1) [IString ''x''])
        (IInt 2) [IString ''y''])
     NewBuffer
   = Returns
       (\<lparr>Table = ''t'', PKey = ''id'', RunLen = 1000, Column = [''a''], Value = [], ReturnColumn = []\<rparr>,
        \<lparr>str = ''UPDATE `t` SET `a` =  CASE `id` WHEN ? THEN ?  WHEN ? THEN ?  END  WHERE `id` IN ( ? ,  ?  )'',
         val = [IString ''1'', IString ''x'', IString ''2'', IString ''y'', IString ''1'', IString ''2'']\<rparr>,
        None)"
  by code_simp

text \<open>
  Claim C2, amended: when \<open>RunLen\<close> is 0, never set or set to 0, a \<open>Build\<close> that returns
  without an error has set \<open>RunLen\<close> to 1000, has written the statement over the first
  1000 rows (over all of them when there are fewer) and leaves the rows after them.
\<close>

theorem Build_RunLen_0_window_1000:
  assumes "RunLen b = 0" and "Build d b buf = Returns (b', buf', None)"
  shows "b' = b\<lparr>RunLen := 1000, Value := drop 1000 (Value b)\<rparr>
       \<and> buf' = \<lparr>str = str buf @ stmt_sql d b (length (take 1000 (Value b))),
                  val = val buf @ stmt_values b (take 1000 (Value b))\<rparr>"
  using Build_returns(2,3)[OF assms(2)] assms(1) by simp

theorem Build_RunLen_0_window_1000_witness:
  "RunLen (Values (Values (Columns (CaseUpdate ''t'') ''id'' [''a'']) (IInt 1) [IString ''x''])
        (IInt 2) [IString ''y'']) = 0
   \<and> Build backtick
     (Values (Values (Columns (CaseUpdate ''t'') ''id'' [''a'']) (IInt 1) [IString ''x''])
        (IInt 2) [IString ''y''])
     NewBuffer
   = Returns
       (\<lparr>Table = ''t'', PKey = ''id'', RunLen = 1000, Column = [''a''], Value = [], ReturnColumn = []\<rparr>,
        \<lparr>str = ''UPDATE `t` SET `a` =  CASE `id` WHEN ? THEN ?  WHEN ? THEN ?  END  WHERE `id` IN ( ? ,  ?  )'',
         val = [IString ''1'', IString ''x'', IString ''2'', IString ''y'', IString ''1'', IString ''2'']\<rparr>,
        None)
   \<and> \<lparr>Table = ''t'', PKey = ''id'', RunLen = 1000, Column = [''a''], Value = [], ReturnColumn = []\<rparr>
       = (Values (Values (Columns (CaseUpdate ''t'') ''id'' [''a'']) (IInt 1) [IString ''x''])
            (IInt 2) [IString ''y''])
          \<lparr>RunLen := 1000,
           Value := drop 1000 (Value (Values (Values (Columns (CaseUpdate ''t'') ''id'' [''a'']) (IInt 1) [IString ''x''])
            (IInt 2) [IString ''y'']))\<rparr>"
proof -
  let ?b = "Values (Values (Columns (CaseUpdate ''t'') ''id'' [''a'']) (IInt 1) [IString ''x''])
        (IInt 2) [IString ''y'']"
  have r: "RunLen ?b = 0"
    by (simp add: Values_def Columns_def CaseUpdate_def Let_def)
  from Build_RunLen_0_window_1000[OF r two_rows_unset_built] r two_rows_unset_built
  show ?thesis by blast
qed

section \<open>Exec, cycle by cycle\<close>




lemma cycle_events_Value [simp]:
  "cycle_events interpolate d (b\<lparr>Value := rows\<rparr>) = cycle_events interpolate d b"
  by (rule ext) (simp add: cycle_events_def stmt_sql_def stmt_values_def)




section \<open>Claims about Exec\<close>




section \<open>The engine: calls and events\<close>

lemma calls_append [simp]: "calls (h @ h') = calls h @ calls h'"
  by (simp add: calls_def)

lemma calls_simps [simp]:
  "calls [] = []"
  "calls (EventErr name err sql # h) = calls h"
  "calls (Timing name sql # h) = calls h"
  "calls (DriverExec sql args # h) = DriverExec sql args # calls h"
  "calls (DriverQuery sql args # h) = DriverQuery sql args # calls h"
  "calls (CacheGetBytes key # h) = CacheGetBytes key # calls h"
  "calls (CacheSet key bs ttl # h) = CacheSet key bs ttl # calls h"
  "calls (CacheDel key # h) = CacheDel key # calls h"
  by (simp_all add: calls_def)


lemma missing_fields [simp]:
  "Set (cache (missing custom)) = Set (cache custom)"
  "GetBytes (cache (missing custom)) = (\<lambda>h key. ([], False, None))"
  "cacheKey (missing custom) = cacheKey custom"
  "cacheExpire (missing custom) = cacheExpire custom"
  "isCache (missing custom) = isCache custom"
  "isCount (missing custom) = isCount custom"
  by (simp_all add: missing_def)

lemma cache_write_missing [simp]:
  "cache_write (Some (missing custom)) encoded sql h = cache_write (Some custom) encoded sql h"
  by (simp add: cache_write_def split: sum.splits option.splits)

lemma query_database_missing [simp]:
  "query_database enc ext runner log builder d dest count_wanted (Some (missing custom)) h
   = query_database enc ext runner log builder d dest count_wanted (Some custom) h"
  by (simp add: query_database_def split: res.splits prod.splits sum.splits option.splits)




section \<open>Claims about the execution engine\<close>



text \<open>
  Claim C6: in \<open>query\<close> with caching enabled and a row count wanted, on a miss with a
  statement that renders and a driver query that succeeds, the query executed is
  \<open>SELECT COUNT(*) FROM (<sql>) AS count\<close>, the count scanned from it is returned with no
  error, and its encoding is stored under the key with the directive's expiry; when the
  encoding fails nothing is stored, and when the store fails that is only reported.
\<close>

theorem query_count_miss:
  assumes "isCache custom" and "isCount custom" and "cacheKey custom \<noteq> []"
    and "enc d builder = Returns (builder', sql', args', None)"
    and "GetBytes (cache custom) (calls h) (cacheKey custom) = (reply, False, None)"
    and "enc d builder' = Returns (builder'', sql, args, None)"
    and "QueryContext runner (calls h @ [CacheGetBytes (cacheKey custom)]) (count_sql sql) args = Inr rows"
  shows "query enc ext runner log builder d dest (custom # customs) h =
     Returns (builder'', dest, ScanCount ext rows, None,
       h @ [CacheGetBytes (cacheKey custom), DriverQuery (count_sql sql) args]
         @ (case EncodeCount ext (ScanCount ext rows) of
              Inl err \<Rightarrow> [EventErr ''dbr.select.cache.encode'' err (count_sql sql)]
            | Inr bs \<Rightarrow>
                CacheSet (cacheKey custom) bs (cacheExpire custom)
                # (case Set (cache custom)
                          (calls h @ [CacheGetBytes (cacheKey custom), DriverQuery (count_sql sql) args])
                          (cacheKey custom) bs (cacheExpire custom) of
                     Some err \<Rightarrow> [EventErr ''dbr.select.cache.set'' err (count_sql sql)]
                   | None \<Rightarrow> []))
         @ [Timing ''dbr.select'' (count_sql sql)])"
  using assms
  by (simp add: query_def getSQL_def cache_read_def query_database_def queryCount_def cache_write_def
      Let_def split: option.splits sum.splits)

theorem query_count_miss_witness:
  "isCache (count_cached cache_empty ''k'')
   \<and> isCount (count_cached cache_empty ''k'')
   \<and> cacheKey (count_cached cache_empty ''k'') \<noteq> []
   \<and> raw_sql backtick ''SELECT * FROM t'' = Returns (''SELECT * FROM t'', ''SELECT * FROM t'', [], None)
   \<and> GetBytes (cache (count_cached cache_empty ''k'')) (calls []) (cacheKey (count_cached cache_empty ''k''))
       = ([], False, None)
   \<and> QueryContext (counting 42) (calls [] @ [CacheGetBytes (cacheKey (count_cached cache_empty ''k''))])
         (count_sql ''SELECT * FROM t'') [] = Inr 42
   \<and> query raw_sql one_byte_gob (counting 42) nullReceiver ''SELECT * FROM t'' backtick NilPointer
         [count_cached cache_empty ''k''] []
       = Returns (''SELECT * FROM t'', NilPointer, 42, None,
           [CacheGetBytes ''k'',
            DriverQuery ''SELECT COUNT(*) FROM (SELECT * FROM t) AS count'' [],
            CacheSet ''k'' [42] 60,
            Timing ''dbr.select'' ''SELECT COUNT(*) FROM (SELECT * FROM t) AS count''])"
proof -
  have c: "isCache (count_cached cache_empty ''k'')" by (simp add: count_cached_def)
  have n: "isCount (count_cached cache_empty ''k'')" by (simp add: count_cached_def)
  have k: "cacheKey (count_cached cache_empty ''k'') \<noteq> []" by (simp add: count_cached_def)
  have e: "raw_sql backtick ''SELECT * FROM t'' = Returns (''SELECT * FROM t'', ''SELECT * FROM t'', [], None)"
    by (simp add: raw_sql_def)
  have g: "GetBytes (cache (count_cached cache_empty ''k'')) (calls []) (cacheKey (count_cached cache_empty ''k''))
       = ([], False, None)"
    by (simp add: count_cached_def cache_empty_def)
  have q: "QueryContext (counting 42) (calls [] @ [CacheGetBytes (cacheKey (count_cached cache_empty ''k''))])
         (count_sql ''SELECT * FROM t'') [] = Inr 42"
    by (simp add: counting_def)
  from query_count_miss[where enc=raw_sql and d=backtick and builder="''SELECT * FROM t''"
      and builder'="''SELECT * FROM t''" and ext=one_byte_gob and log=nullReceiver
      and dest=NilPointer and customs="[]", OF c n k e g e q]
  have "query raw_sql one_byte_gob (counting 42) nullReceiver ''SELECT * FROM t'' backtick NilPointer
         [count_cached cache_empty ''k''] []
       = Returns (''SELECT * FROM t'', NilPointer, 42, None,
           [CacheGetBytes ''k'',
            DriverQuery ''SELECT COUNT(*) FROM (SELECT * FROM t) AS count'' [],
            CacheSet ''k'' [42] 60,
            Timing ''dbr.select'' ''SELECT COUNT(*) FROM (SELECT * FROM t) AS count''])"
    by (simp add: count_cached_def cache_empty_def one_byte_gob_def count_sql_def)
  with c n k e g q show ?thesis by blast
qed

text \<open>
  Claim C7: in \<open>exec\<close>, after a driver call that succeeds, a directive with caching
  enabled and a non-empty key has its key deleted from the cache; an error of that
  \<open>Del\<close> is reported to the event receiver and the call still returns the driver's
  result and no error.
\<close>

theorem exec_deletes_cache_key:
  assumes "enc d builder = Returns (builder', sql, args, None)"
    and "ExecContext runner (calls h) sql args = Inr result"
    and "isCache custom" and "cacheKey custom \<noteq> []"
  shows "exec enc runner log builder d (custom # customs) h =
     Returns (builder', Inr result,
       h @ [DriverExec sql args, CacheDel (cacheKey custom)]
         @ (case Del (cache custom) (calls h @ [DriverExec sql args]) (cacheKey custom) of
              Some err \<Rightarrow> [EventErr ''dbr.exec.cache.del'' err sql]
            | None \<Rightarrow> [])
         @ [Timing ''dbr.exec'' sql])"
  using assms by (simp add: exec_def exec_cache_del_def split: option.splits)

theorem exec_deletes_cache_key_witness:
  "raw_sql backtick ''DELETE FROM t'' = Returns (''DELETE FROM t'', ''DELETE FROM t'', [], None)
   \<and> ExecContext always_ok (calls []) ''DELETE FROM t'' [] = Inr \<lparr>LastInsertId = 0, RowsAffected = 1\<rparr>
   \<and> isCache (count_cached cache_down ''k'')
   \<and> cacheKey (count_cached cache_down ''k'') \<noteq> []
   \<and> exec raw_sql always_ok nullReceiver ''DELETE FROM t'' backtick [count_cached cache_down ''k''] []
       = Returns (''DELETE FROM t'', Inr \<lparr>LastInsertId = 0, RowsAffected = 1\<rparr>,
           [DriverExec ''DELETE FROM t'' [], CacheDel ''k'',
            EventErr ''dbr.exec.cache.del'' (External ''cache: connection refused'') ''DELETE FROM t'',
            Timing ''dbr.exec'' ''DELETE FROM t''])"
proof -
  have e: "raw_sql backtick ''DELETE FROM t'' = Returns (''DELETE FROM t'', ''DELETE FROM t'', [], None)"
    by (simp add: raw_sql_def)
  have x: "ExecContext always_ok (calls []) ''DELETE FROM t'' [] = Inr \<lparr>LastInsertId = 0, RowsAffected = 1\<rparr>"
    by (simp add: always_ok_def)
  have c: "isCache (count_cached cache_down ''k'')" by (simp add: count_cached_def)
  have k: "cacheKey (count_cached cache_down ''k'') \<noteq> []" by (simp add: count_cached_def)
  from exec_deletes_cache_key[where enc=raw_sql and d=backtick and builder="''DELETE FROM t''"
      and log=nullReceiver and customs="[]", OF e x c k]
  have "exec raw_sql always_ok nullReceiver ''DELETE FROM t'' backtick [count_cached cache_down ''k''] []
       = Returns (''DELETE FROM t'', Inr \<lparr>LastInsertId = 0, RowsAffected = 1\<rparr>,
           [DriverExec ''DELETE FROM t'' [], CacheDel ''k'',
            EventErr ''dbr.exec.cache.del'' (External ''cache: connection refused'') ''DELETE FROM t'',
            Timing ''dbr.exec'' ''DELETE FROM t''])"
    by (simp add: count_cached_def cache_down_def)
  with e x c k show ?thesis by blast
qed




end
